theory Spec2Isabelle
  imports Complex_Main
begin

section \<open>Python strings\<close>

text \<open>
  A Python \<open>str\<close> is a sequence of code points. The texts of this development are
  HOL strings, one \<open>char\<close> per code point, so they range over the code points
  U+0000 to U+00FF. The character classes below are Python's on that range.
\<close>

definition is_space :: "char \<Rightarrow> bool" where
  \<comment> \<open>\<open>str.isspace\<close>, the class stripped by \<open>str.strip()\<close> and matched by \<open>\s\<close>\<close>
  "is_space c = (let n = (of_char c :: nat) in
     (9 \<le> n \<and> n \<le> 13) \<or> (28 \<le> n \<and> n \<le> 32) \<or> n = 133 \<or> n = 160)"

definition is_decimal :: "char \<Rightarrow> bool" where
  \<comment> \<open>\<open>\d\<close>\<close>
  "is_decimal c = (let n = (of_char c :: nat) in 48 \<le> n \<and> n \<le> 57)"

definition is_word :: "char \<Rightarrow> bool" where
  \<comment> \<open>\<open>\w\<close>: alphanumeric code points and the underscore\<close>
  "is_word c = (let n = (of_char c :: nat) in
     (48 \<le> n \<and> n \<le> 57) \<or> (65 \<le> n \<and> n \<le> 90) \<or> (97 \<le> n \<and> n \<le> 122) \<or> n = 95
     \<or> n = 170 \<or> n = 178 \<or> n = 179 \<or> n = 181 \<or> n = 185 \<or> n = 186
     \<or> (188 \<le> n \<and> n \<le> 190) \<or> (192 \<le> n \<and> n \<le> 214) \<or> (216 \<le> n \<and> n \<le> 246)
     \<or> (248 \<le> n \<and> n \<le> 255))"

definition lower_char :: "char \<Rightarrow> char" where
  "lower_char c = (let n = (of_char c :: nat) in
     if (65 \<le> n \<and> n \<le> 90) \<or> (192 \<le> n \<and> n \<le> 214) \<or> (216 \<le> n \<and> n \<le> 222)
     then char_of (n + 32) else c)"

definition lower :: "string \<Rightarrow> string" where
  \<comment> \<open>\<open>str.lower()\<close>\<close>
  "lower s = map lower_char s"

definition strip :: "string \<Rightarrow> string" where
  \<comment> \<open>\<open>str.strip()\<close>\<close>
  "strip s = rev (dropWhile is_space (rev (dropWhile is_space s)))"

fun startswith :: "string \<Rightarrow> string \<Rightarrow> bool" where
  \<comment> \<open>\<open>s.startswith(p)\<close>, the prefix first\<close>
  "startswith [] s = True"
| "startswith (p # ps) [] = False"
| "startswith (p # ps) (c # cs) = (p = c \<and> startswith ps cs)"

fun contains :: "string \<Rightarrow> string \<Rightarrow> bool" where
  \<comment> \<open>\<open>needle in s\<close>, the needle first\<close>
  "contains needle [] = (needle = [])"
| "contains needle (c # cs) = (startswith needle (c # cs) \<or> contains needle cs)"

definition after_colon :: "string \<Rightarrow> string" where
  \<comment> \<open>\<open>text.split(':', 1)[1].strip() if ':' in text else ''\<close>\<close>
  "after_colon text =
     (if CHR '':'' \<in> set text then strip (tl (dropWhile (\<lambda>c. c \<noteq> CHR '':'') text)) else [])"

function replace :: "string \<Rightarrow> string \<Rightarrow> string \<Rightarrow> string" where
  \<comment> \<open>\<open>s.replace(old, new)\<close>: every occurrence, left to right, without overlap\<close>
  "replace old new s =
     (if old = [] then concat (map (\<lambda>c. new @ [c]) s) @ new
      else if s = [] then []
      else if startswith old s then new @ replace old new (drop (length old) s)
      else hd s # replace old new (tl s))"
  by pat_completeness auto
termination
  by (relation "measure (\<lambda>(old, new, s). length s)") auto

fun join :: "string \<Rightarrow> string list \<Rightarrow> string" where
  \<comment> \<open>\<open>sep.join(xs)\<close>\<close>
  "join sep [] = []"
| "join sep [x] = x"
| "join sep (x # y # ys) = x @ sep @ join sep (y # ys)"

section \<open>Regular expressions\<close>

text \<open>
  The patterns of the source are sequences of character classes, each with a
  quantifier. A match is found as Python's backtracking matcher finds it: every
  quantifier is greedy, the alternatives are tried longest first, and the first
  complete match of the leftmost starting position wins. \<open>seq_matches\<close> lists the
  matches at one position in that order, each as the texts consumed by the atoms.
\<close>

datatype quant = One | Opt | Star | Plus

datatype atom = Atom "char \<Rightarrow> bool" quant

fun runs :: "(char \<Rightarrow> bool) \<Rightarrow> string \<Rightarrow> (string \<times> string) list" where
  \<comment> \<open>the ways to consume a run of the class, longest first\<close>
  "runs p [] = [([], [])]"
| "runs p (c # cs) =
     (if p c then map (\<lambda>(a, b). (c # a, b)) (runs p cs) @ [([], c # cs)] else [([], c # cs)])"

fun atom_matches :: "atom \<Rightarrow> string \<Rightarrow> (string \<times> string) list" where
  "atom_matches (Atom p One) s =
     (case s of [] \<Rightarrow> [] | c # cs \<Rightarrow> if p c then [([c], cs)] else [])"
| "atom_matches (Atom p Opt) s =
     (case s of [] \<Rightarrow> [([], [])] | c # cs \<Rightarrow> if p c then [([c], cs), ([], s)] else [([], s)])"
| "atom_matches (Atom p Star) s = runs p s"
| "atom_matches (Atom p Plus) s = filter (\<lambda>(a, b). a \<noteq> []) (runs p s)"

fun seq_matches :: "atom list \<Rightarrow> string \<Rightarrow> string list list" where
  "seq_matches [] s = [[]]"
| "seq_matches (a # as) s =
     concat (map (\<lambda>(m, r). map (\<lambda>ms. m # ms) (seq_matches as r)) (atom_matches a s))"

fun re_search :: "atom list \<Rightarrow> string \<Rightarrow> string list option" where
  \<comment> \<open>\<open>re.search\<close>: the texts consumed by the atoms of the first match\<close>
  "re_search pat [] = (case seq_matches pat [] of [] \<Rightarrow> None | ms # _ \<Rightarrow> Some ms)"
| "re_search pat (c # cs) =
     (case seq_matches pat (c # cs) of [] \<Rightarrow> re_search pat cs | ms # _ \<Rightarrow> Some ms)"

definition lit :: "string \<Rightarrow> atom list" where
  "lit s = map (\<lambda>c. Atom (\<lambda>x. x = c) One) s"

definition lit_ignorecase :: "string \<Rightarrow> atom list" where
  "lit_ignorecase s = map (\<lambda>c. Atom (\<lambda>x. lower_char x = lower_char c) One) s"

definition group :: "nat \<Rightarrow> string list \<Rightarrow> string" where
  \<comment> \<open>the text of a group that starts at atom \<open>k\<close> and runs to the end of the pattern\<close>
  "group k ms = concat (drop k ms)"

definition email_token :: "atom list" where
  \<comment> \<open>\<open>[\w\.-]+@[\w\.-]+\.\w+\<close>\<close>
  "email_token =
     [Atom (\<lambda>c. is_word c \<or> c = CHR ''.'' \<or> c = CHR ''-'') Plus,
      Atom (\<lambda>c. c = CHR ''@'') One,
      Atom (\<lambda>c. is_word c \<or> c = CHR ''.'' \<or> c = CHR ''-'') Plus,
      Atom (\<lambda>c. c = CHR ''.'') One,
      Atom is_word Plus]"

definition search_numero :: "string \<Rightarrow> string option" where
  \<comment> \<open>\<open>re.search(r'num\'ero : (\d+)', s)\<close>, group 1; the e acute is U+00E9\<close>
  "search_numero s =
     map_option (group 9)
       (re_search (lit (''num'' @ [CHR 0xE9] @ ''ro : '') @ [Atom is_decimal Plus]) s)"

definition search_email :: "string \<Rightarrow> string option" where
  \<comment> \<open>\<open>re.search(r'[\w\.-]+@[\w\.-]+\.\w+', s)\<close>, group 0\<close>
  "search_email s = map_option (group 0) (re_search email_token s)"

definition search_email_label :: "string \<Rightarrow> string option" where
  \<comment> \<open>\<open>re.search(r'Email\s*[:\-]?\s*([\w\.-]+@[\w\.-]+\.\w+)', s, re.IGNORECASE)\<close>, group 1\<close>
  "search_email_label s =
     map_option (group 8)
       (re_search (lit_ignorecase ''Email''
          @ [Atom is_space Star, Atom (\<lambda>c. c = CHR '':'' \<or> c = CHR ''-'') Opt, Atom is_space Star]
          @ email_token) s)"

definition search_code :: "string \<Rightarrow> string option" where
  \<comment> \<open>\<open>re.search(r'Code comp\'etition\s*:\s*(\d+)', s)\<close>, group 1\<close>
  "search_code s =
     map_option (group 19)
       (re_search (lit (''Code comp'' @ [CHR 0xE9] @ ''tition'')
          @ [Atom is_space Star, Atom (\<lambda>c. c = CHR '':'') One, Atom is_space Star,
             Atom is_decimal Plus]) s)"

definition search_contact :: "string \<Rightarrow> string option" where
  \<comment> \<open>\<open>re.search(r'Personnes \`a contacter.*\n*(.+)', s)\<close>, group 1; the a grave is U+00E0\<close>
  "search_contact s =
     map_option (group 23)
       (re_search (lit (''Personnes '' @ [CHR 0xE0] @ '' contacter'')
          @ [Atom (\<lambda>c. c \<noteq> CHR 0x0A) Star, Atom (\<lambda>c. c = CHR 0x0A) Star,
             Atom (\<lambda>c. c \<noteq> CHR 0x0A) Plus]) s)"

section \<open>Documents and records\<close>

text \<open>
  BeautifulSoup is a library: a document is given by the results of the queries that
  the program puts to it. An anchor is an \<open>a\<close> element with its \<open>title\<close> and
  \<open>href\<close> attributes (\<open>None\<close> when absent). A cell is a \<open>td\<close> element with its
  \<open>get_text(strip=True)\<close> and its anchors in document order.
\<close>

record anchor =
  a_title :: "string option"
  a_href :: "string option"

record cell =
  cell_text :: string
  cell_anchors :: "anchor list"

record info_section =
  info_anchors :: "anchor list"  \<comment> \<open>the \<open>a\<close> elements of the section\<close>
  info_paragraphs :: "string list"  \<comment> \<open>\<open>p.get_text(strip=True)\<close> of its \<open>p\<close> elements\<close>
  info_text :: string  \<comment> \<open>\<open>info_section.get_text()\<close>\<close>

record html =
  clignotant_rows :: "cell list list"
    \<comment> \<open>\<open>soup.find_all('tr', {'class': 'clignotant'})\<close>, each row as \<open>row.find_all('td')\<close>\<close>
  infoPratique :: "info_section option"
    \<comment> \<open>\<open>soup.find('section', {'id': 'infoPratique'})\<close>\<close>
  club_card :: "string option"
    \<comment> \<open>\<open>soup.find('div', class_='club-card')\<close>, as its \<open>get_text(separator='\n', strip=True)\<close>\<close>
  epreuves :: "string option list option"
    \<comment> \<open>\<open>soup.find('section', {'id': 'epreuves'})\<close>, as its \<open>div.club-card\<close> elements, each as
        the \<open>get_text(strip=True)\<close> of its first \<open>h3.text-normal\<close>\<close>

text \<open>A competition and the result of a detail page are Python dictionaries.\<close>

datatype pyval = Str string | Num int

type_synonym pydict = "string \<rightharpoonup> pyval"

fun truthy :: "pyval option \<Rightarrow> bool" where
  \<comment> \<open>the truth value of \<open>d.get(key)\<close>\<close>
  "truthy None = False"
| "truthy (Some (Str s)) = (s \<noteq> [])"
| "truthy (Some (Num n)) = (n \<noteq> 0)"

section \<open>The listing parser\<close>

definition COMPETITIONS_PER_PAGE :: nat where
  "COMPETITIONS_PER_PAGE = 250"

definition DEFAULT_DELAY :: real where
  "DEFAULT_DELAY = 1.0"

definition competition_id_of :: "cell \<Rightarrow> string" where
  \<comment> \<open>\<open>date_cell.find('a', title=True)\<close>, then the number in its title\<close>
  "competition_id_of date_cell =
     (case find (\<lambda>a. a_title a \<noteq> None) (cell_anchors date_cell) of
        None \<Rightarrow> []
      | Some date_link \<Rightarrow>
          (case a_title date_link of
             None \<Rightarrow> []
           | Some t \<Rightarrow> if t = [] then []
                       else (case search_numero t of None \<Rightarrow> [] | Some n \<Rightarrow> n)))"

definition href_of :: "cell \<Rightarrow> string option" where
  \<comment> \<open>\<open>detail_link = cell.find('a')\<close> and \<open>detail_link.get('href')\<close>, when both are truthy\<close>
  "href_of c =
     (case cell_anchors c of
        [] \<Rightarrow> None
      | detail_link # _ \<Rightarrow>
          (case a_href detail_link of
             None \<Rightarrow> None
           | Some h \<Rightarrow> if h = [] then None else Some h))"

definition detail_url_of :: "cell list \<Rightarrow> string" where
  "detail_url_of cells =
     (if 7 \<le> length cells then
        (case href_of (cells ! 6) of
           None \<Rightarrow> []
         | Some h \<Rightarrow> if startswith ''/'' h then ''https://www.athle.fr'' @ h else h)
      else [])"

definition parse_row :: "cell list \<Rightarrow> int \<Rightarrow> pydict" where
  \<comment> \<open>the body of the loop for a row that has at least 7 cells\<close>
  "parse_row cells page =
     (let date_cell = cells ! 0;
          competition_id = competition_id_of date_cell;
          date = cell_text date_cell;
          event = (if 1 < length cells then cell_text (cells ! 1) else []);
          location = (if 2 < length cells then cell_text (cells ! 2) else []);
          competition_type = (if 3 < length cells then cell_text (cells ! 3) else []);
          level = (if 4 < length cells then cell_text (cells ! 4) else []);
          detail_url = detail_url_of cells
      in [''Competition_ID'' \<mapsto> Str competition_id,
          ''Date'' \<mapsto> Str date,
          ''Event'' \<mapsto> Str event,
          ''Location'' \<mapsto> Str location,
          ''Type'' \<mapsto> Str competition_type,
          ''Level'' \<mapsto> Str level,
          ''Detail_URL'' \<mapsto> Str detail_url,
          ''Page'' \<mapsto> Num page,
          ''Organizer_Name'' \<mapsto> Str [],
          ''Organizer_Address'' \<mapsto> Str [],
          ''Organizer_Phone'' \<mapsto> Str [],
          ''Organizer_Email'' \<mapsto> Str [],
          ''Organizer_Website'' \<mapsto> Str [],
          ''Stadium_Address'' \<mapsto> Str [],
          ''Competition_Code'' \<mapsto> Str [],
          ''Contact_Person'' \<mapsto> Str [],
          ''Events_List'' \<mapsto> Str [],
          ''Events_Count'' \<mapsto> Num 0])"

fun parse_rows :: "cell list list \<Rightarrow> int \<Rightarrow> pydict list" where
  \<comment> \<open>the loop over the rows: a row of fewer than 7 cells is passed over\<close>
  "parse_rows [] page = []"
| "parse_rows (cells # rows) page =
     (if length cells < 7 then parse_rows rows page
      else parse_row cells page # parse_rows rows page)"

definition parse_competitions :: "html \<Rightarrow> int \<Rightarrow> pydict list" where
  "parse_competitions soup page = parse_rows (clignotant_rows soup) page"

definition is_absolute_url :: "string \<Rightarrow> bool" where
  \<comment> \<open>what the listing claims call an absolute URL: the text opens with a scheme, a letter
      followed by letters, digits, \<open>+\<close>, \<open>-\<close> or \<open>.\<close>, then a colon\<close>
  "is_absolute_url u =
     (case u of
        [] \<Rightarrow> False
      | c # cs \<Rightarrow>
          (let letter = (\<lambda>x. let n = (of_char x :: nat) in (65 \<le> n \<and> n \<le> 90) \<or> (97 \<le> n \<and> n \<le> 122));
               rest = dropWhile (\<lambda>x. letter x \<or> is_decimal x \<or> x \<in> set ''+-.'') cs
           in letter c \<and> startswith '':'' rest))"

section \<open>The detail parser\<close>

definition mailto_links :: "info_section \<Rightarrow> anchor list" where
  \<comment> \<open>\<open>info_section.find_all('a', href=lambda x: x and 'mailto:' in x)\<close>\<close>
  "mailto_links sec =
     filter (\<lambda>a. case a_href a of None \<Rightarrow> False | Some x \<Rightarrow> x \<noteq> [] \<and> contains ''mailto:'' x)
       (info_anchors sec)"

definition mailto_address :: "anchor \<Rightarrow> string" where
  \<comment> \<open>\<open>link.get('href', '').replace('mailto:', '').strip()\<close>\<close>
  "mailto_address link =
     strip (replace ''mailto:'' [] (case a_href link of None \<Rightarrow> [] | Some h \<Rightarrow> h))"

fun email_from_links :: "anchor list \<Rightarrow> pydict \<Rightarrow> pydict" where
  \<comment> \<open>method 1: the first link with an address sets the email, and the loop breaks\<close>
  "email_from_links [] detail_data = detail_data"
| "email_from_links (link # links) detail_data =
     (let email = mailto_address link
      in if email \<noteq> [] then detail_data(''Organizer_Email'' \<mapsto> Str email)
         else email_from_links links detail_data)"

definition parse_paragraph :: "string \<Rightarrow> pydict \<Rightarrow> pydict" where
  \<comment> \<open>method 2, the body of the loop over the paragraphs. The first test of the source
      also accepts the label written with the apostrophe U+2019, which no text of this
      development contains.\<close>
  "parse_paragraph text detail_data =
     (if contains (''Nom de l'' @ [CHR 0x27] @ ''organisateur'') text then
        detail_data(''Organizer_Name'' \<mapsto> Str (after_colon text))
      else if contains ''Adresse'' text \<and> \<not> contains ''stade'' (lower text) then
        detail_data(''Organizer_Address'' \<mapsto> Str (after_colon text))
      else if contains (''T'' @ [CHR 0xE9] @ ''l'' @ [CHR 0xE9] @ ''phone'') text then
        detail_data(''Organizer_Phone'' \<mapsto> Str (after_colon text))
      else if contains ''Email'' text \<and> detail_data ''Organizer_Email'' = None then
        (let email_text = after_colon text
         in case search_email email_text of
              Some email_match \<Rightarrow> detail_data(''Organizer_Email'' \<mapsto> Str email_match)
            | None \<Rightarrow>
                if email_text \<noteq> [] \<and> email_text \<noteq> ''-''
                then detail_data(''Organizer_Email'' \<mapsto> Str email_text)
                else detail_data)
      else if contains ''Site internet'' text then
        (let website = after_colon text
         in if website \<noteq> [] \<and> website \<noteq> ''-''
            then detail_data(''Organizer_Website'' \<mapsto> Str website)
            else detail_data)
      else if contains ''Adresse du stade'' text then
        detail_data(''Stadium_Address'' \<mapsto> Str (after_colon text))
      else detail_data)"

fun parse_paragraphs :: "string list \<Rightarrow> pydict \<Rightarrow> pydict" where
  "parse_paragraphs [] detail_data = detail_data"
| "parse_paragraphs (text # paragraphs) detail_data =
     parse_paragraphs paragraphs (parse_paragraph text detail_data)"

definition parse_info :: "info_section option \<Rightarrow> pydict \<Rightarrow> pydict" where
  \<comment> \<open>\<open>if info_section:\<close> methods 1 and 2\<close>
  "parse_info info detail_data =
     (case info of
        None \<Rightarrow> detail_data
      | Some sec \<Rightarrow>
          parse_paragraphs (info_paragraphs sec)
            (email_from_links (mailto_links sec) detail_data))"

definition email_fallback :: "info_section option \<Rightarrow> pydict \<Rightarrow> pydict" where
  \<comment> \<open>method 3: only when no email is set, or the one set is empty\<close>
  "email_fallback info detail_data =
     (if detail_data ''Organizer_Email'' = None \<or> \<not> truthy (detail_data ''Organizer_Email'') then
        (case info of
           None \<Rightarrow> detail_data
         | Some sec \<Rightarrow>
             (case search_email_label (info_text sec) of
                None \<Rightarrow> detail_data
              | Some email \<Rightarrow> detail_data(''Organizer_Email'' \<mapsto> Str (strip email))))
      else detail_data)"

definition parse_club_card :: "string option \<Rightarrow> pydict \<Rightarrow> pydict" where
  "parse_club_card club detail_data =
     (case club of
        None \<Rightarrow> detail_data
      | Some card_text \<Rightarrow>
          (let d1 = (case search_code card_text of
                       None \<Rightarrow> detail_data
                     | Some code \<Rightarrow> detail_data(''Competition_Code'' \<mapsto> Str (strip code)))
           in case search_contact card_text of
                None \<Rightarrow> d1
              | Some contact \<Rightarrow> d1(''Contact_Person'' \<mapsto> Str (take 100 (strip contact)))))"

fun event_names :: "string option list \<Rightarrow> string list" where
  \<comment> \<open>the loop over the event cards: the heading of each card that has one\<close>
  "event_names [] = []"
| "event_names (None # cards) = event_names cards"
| "event_names (Some event_name # cards) = event_name # event_names cards"

definition events_list_of :: "html \<Rightarrow> string list" where
  "events_list_of soup =
     (case epreuves soup of None \<Rightarrow> [] | Some event_cards \<Rightarrow> event_names event_cards)"

fun ensure_fields :: "string list \<Rightarrow> pydict \<Rightarrow> pydict" where
  \<comment> \<open>\<open>for field in [...]: if field not in detail_data: detail_data[field] = ''\<close>\<close>
  "ensure_fields [] detail_data = detail_data"
| "ensure_fields (field # rest) detail_data =
     ensure_fields rest
       (if detail_data field = None then detail_data(field \<mapsto> Str []) else detail_data)"

definition collect_fields :: "html \<Rightarrow> pydict" where
  \<comment> \<open>\<open>parse_detail_page\<close> up to the assignment of \<open>Events_Count\<close>\<close>
  "collect_fields soup =
     (let d1 = parse_info (infoPratique soup) Map.empty;
          d2 = email_fallback (infoPratique soup) d1;
          d3 = parse_club_card (club_card soup) d2;
          events_list = events_list_of soup
      in d3(''Events_List'' \<mapsto> Str (join ''; '' events_list),
            ''Events_Count'' \<mapsto> Num (int (length events_list))))"

definition parse_detail_page :: "html \<Rightarrow> pydict" where
  \<comment> \<open>the fields collected, then \<open># Ensure all fields exist\<close>\<close>
  "parse_detail_page soup =
     (let detail_data = ensure_fields
            [''Organizer_Name'', ''Organizer_Address'', ''Organizer_Phone'',
             ''Organizer_Email'', ''Organizer_Website'', ''Stadium_Address'',
             ''Competition_Code'', ''Contact_Person'', ''Events_List'']
            (collect_fields soup)
      in if detail_data ''Events_Count'' = None
         then detail_data(''Events_Count'' \<mapsto> Num 0) else detail_data)"

section \<open>The network and the effects of a run\<close>

text \<open>
  A request is a \<open>GET\<close> of the session: of the listing with its query parameters, or of
  a detail URL. The answer of the network may depend on everything that happened
  before, so the session is a function of a state of the world \<open>'w\<close>; it answers
  \<open>None\<close> when \<open>get\<close> or \<open>raise_for_status\<close> raises, and the parsed document
  otherwise. The requests sent and the pauses made are recorded in a trace. The
  messages written to the Streamlit widgets are not part of the model.
\<close>

datatype request = Get_Listing "string \<rightharpoonup> string" | Get_Detail pyval

datatype event = Request request | Sleep real

type_synonym 'w session = "'w \<Rightarrow> request \<Rightarrow> html option \<times> 'w"

record 'w io =
  world :: 'w
  trace :: "event list"

definition send :: "'w session \<Rightarrow> request \<Rightarrow> 'w io \<Rightarrow> html option \<times> 'w io" where
  "send session req st =
     (case session (world st) req of
        (response, w) \<Rightarrow> (response, st\<lparr>world := w, trace := trace st @ [Request req]\<rparr>))"

definition sleep :: "real \<Rightarrow> 'w io \<Rightarrow> 'w io" where
  \<comment> \<open>\<open>time.sleep\<close>\<close>
  "sleep seconds st = st\<lparr>trace := trace st @ [Sleep seconds]\<rparr>"

datatype error = KeyError string | TypeError | ValueError | OverflowError

section \<open>The detail enrichment driver\<close>

definition scrape_detail_page :: "'w session \<Rightarrow> pyval \<Rightarrow> 'w io \<Rightarrow> pydict option \<times> 'w io" where
  \<comment> \<open>every exception of the request is caught and gives \<open>None\<close>\<close>
  "scrape_detail_page session url st =
     (case send session (Get_Detail url) st of
        (None, st') \<Rightarrow> (None, st')
      | (Some soup, st') \<Rightarrow> (Some (parse_detail_page soup), st'))"

definition status_message :: "bool \<Rightarrow> pydict \<Rightarrow> error option" where
  \<comment> \<open>with a status widget the message reads \<open>comp['Event'][:30]\<close>, which raises when the
      key is missing or its value is no text\<close>
  "status_message status_text competition =
     (if status_text then
        (case competition ''Event'' of
           None \<Rightarrow> Some (KeyError ''Event'')
         | Some (Str s) \<Rightarrow> None
         | Some (Num n) \<Rightarrow> Some TypeError)
      else None)"

text \<open>
  The competitions are dictionaries that the driver updates in place, and the list it
  returns holds the objects of the list it was given. So a list is a list of
  references, and a store gives the dictionary of every reference at the moment; a
  list may hold one reference more than once.
\<close>

type_synonym ref = nat

type_synonym store = "ref \<Rightarrow> pydict"

fun detail_loop ::
  "'w session \<Rightarrow> bool \<Rightarrow> ref list \<Rightarrow> ref list \<Rightarrow> 'w io \<Rightarrow> store
     \<Rightarrow> error + ref list \<times> 'w io \<times> store"
where
  \<comment> \<open>the loop over the competitions, with the list \<open>updated_competitions\<close>. A dictionary
      that is empty is not merged, which leaves the competition as merging it would.\<close>
  "detail_loop session status_text [] updated st store = Inr (updated, st, store)"
| "detail_loop session status_text (competition # competitions) updated st store =
     (case store competition ''Detail_URL'' of
        None \<Rightarrow> detail_loop session status_text competitions (updated @ [competition]) st store
      | Some url \<Rightarrow>
          if \<not> truthy (Some url) then
            detail_loop session status_text competitions (updated @ [competition]) st store
          else
            (case status_message status_text (store competition) of
               Some e \<Rightarrow> Inl e
             | None \<Rightarrow>
                 (case scrape_detail_page session url st of
                    (detail_data, st1) \<Rightarrow>
                      detail_loop session status_text competitions (updated @ [competition])
                        (sleep DEFAULT_DELAY st1)
                        (case detail_data of
                           None \<Rightarrow> store
                         | Some d \<Rightarrow> store(competition := store competition ++ d)))))"

definition scrape_detail_pages ::
  "'w session \<Rightarrow> ref list \<Rightarrow> bool \<Rightarrow> 'w io \<Rightarrow> store \<Rightarrow> error + ref list \<times> 'w io \<times> store"
where
  "scrape_detail_pages session competitions status_text st store =
     (if competitions = [] then Inr (competitions, st, store)
      else detail_loop session status_text competitions [] st store)"

text \<open>
  What the loop does for one competition: the dictionary it leaves in the store and the
  events it adds.
\<close>

definition enriched :: "'w session \<Rightarrow> 'w \<Rightarrow> pydict \<Rightarrow> pydict" where
  "enriched session w competition =
     (if \<not> truthy (competition ''Detail_URL'') then competition
      else case fst (session w (Get_Detail (the (competition ''Detail_URL'')))) of
             None \<Rightarrow> competition
           | Some soup \<Rightarrow> competition ++ parse_detail_page soup)"

definition events_of :: "pydict \<Rightarrow> event list" where
  "events_of competition =
     (if \<not> truthy (competition ''Detail_URL'') then []
      else [Request (Get_Detail (the (competition ''Detail_URL''))), Sleep DEFAULT_DELAY])"

definition listing_keys :: "string set" where
  "listing_keys = {''Competition_ID'', ''Date'', ''Event'', ''Location'', ''Type'', ''Level'',
     ''Detail_URL'', ''Page''}"

definition enrichment_keys :: "string set" where
  "enrichment_keys = {''Organizer_Name'', ''Organizer_Address'', ''Organizer_Phone'',
     ''Organizer_Email'', ''Organizer_Website'', ''Stadium_Address'', ''Competition_Code'',
     ''Contact_Person'', ''Events_List'', ''Events_Count''}"

definition after_record :: "'w session \<Rightarrow> pydict \<Rightarrow> 'w io \<Rightarrow> 'w io" where
  \<comment> \<open>the state in which the loop goes on to the next competition\<close>
  "after_record session competition st =
     (if \<not> truthy (competition ''Detail_URL'') then st
      else sleep DEFAULT_DELAY
             (snd (send session (Get_Detail (the (competition ''Detail_URL''))) st)))"

fun is_request :: "event \<Rightarrow> bool" where
  "is_request (Request r) = True"
| "is_request (Sleep seconds) = False"

section \<open>Dates\<close>

text \<open>
  A \<open>datetime\<close> at midnight is its proleptic Gregorian ordinal, the number of the day
  counted from 0001-01-01 as day 1; the last day is 9999-12-31. The conversions follow
  the functions of the same names in Python's \<open>datetime\<close> module.
\<close>

definition MAXORDINAL :: int where
  \<comment> \<open>\<open>datetime.max.toordinal()\<close>\<close>
  "MAXORDINAL = 3652059"

definition is_leap :: "int \<Rightarrow> bool" where
  "is_leap year = (year mod 4 = 0 \<and> (year mod 100 \<noteq> 0 \<or> year mod 400 = 0))"


definition days_in_month :: "int \<Rightarrow> int \<Rightarrow> int" where
  "days_in_month year month =
     (if month = 2 then (if is_leap year then 29 else 28)
      else if month \<in> {4, 6, 9, 11} then 30 else 31)"

definition days_before_month :: "int \<Rightarrow> int \<Rightarrow> int" where
  "days_before_month year month =
     sum_list (map (days_in_month year) [1 .. month - 1])"


definition ord2ymd :: "int \<Rightarrow> int \<times> int \<times> int" where
  "ord2ymd ordinal =
     (let n0 = ordinal - 1;
          n400 = n0 div 146097; r400 = n0 mod 146097;
          n100 = r400 div 36524; r100 = r400 mod 36524;
          n4 = r100 div 1461; r4 = r100 mod 1461;
          n1 = r4 div 365; n = r4 mod 365;
          year = n400 * 400 + 1 + n100 * 100 + n4 * 4 + n1
      in if n1 = 4 \<or> n100 = 4 then (year - 1, 12, 31)
         else
           (let month = (n + 50) div 32;
                preceding = days_before_month year month
            in if preceding > n
               then (year, month - 1, n - (preceding - days_in_month year (month - 1)) + 1)
               else (year, month, n - preceding + 1)))"

function digits :: "nat \<Rightarrow> string" where
  \<comment> \<open>the decimal digits of a number\<close>
  "digits n =
     (if n < 10 then [char_of (48 + n)] else digits (n div 10) @ [char_of (48 + n mod 10)])"
  by pat_completeness auto
termination
  by (relation "measure id") auto

declare digits.simps [simp del]

definition str :: "int \<Rightarrow> string" where
  \<comment> \<open>\<open>str(n)\<close> of an integer\<close>
  "str n = (if n < 0 then CHR ''-'' # digits (nat (- n)) else digits (nat n))"

definition zero_pad :: "nat \<Rightarrow> int \<Rightarrow> string" where
  \<comment> \<open>\<open>'%0wd' % n\<close> for \<open>n\<close> not negative\<close>
  "zero_pad width n = (let s = digits (nat n) in replicate (width - length s) CHR ''0'' @ s)"

definition strftime :: "int \<Rightarrow> string" where
  \<comment> \<open>\<open>dt.strftime('%Y-%m-%d')\<close>, the year written with four digits (from the year
      1000 on every platform writes it so)\<close>
  "strftime ordinal =
     (case ord2ymd ordinal of
        (year, month, day) \<Rightarrow>
          zero_pad 4 year @ ''-'' @ zero_pad 2 month @ ''-'' @ zero_pad 2 day)"





definition add_days :: "int \<Rightarrow> int \<Rightarrow> error + int" where
  \<comment> \<open>\<open>dt + timedelta(days=n)\<close>: the difference and the sum have to be in range\<close>
  "add_days ordinal n =
     (if 999999999 < \<bar>n\<bar> \<or> ordinal + n < 1 \<or> MAXORDINAL < ordinal + n
      then Inl OverflowError else Inr (ordinal + n))"

section \<open>The pagination driver and the batches\<close>

definition params_with_page :: "(string \<rightharpoonup> string) \<Rightarrow> int \<Rightarrow> (string \<rightharpoonup> string)" where
  "params_with_page params page = params(''frmposition'' \<mapsto> str page)"

definition scrape_page ::
  "'w session \<Rightarrow> (string \<rightharpoonup> string) \<Rightarrow> int \<Rightarrow> 'w io \<Rightarrow> (pydict list \<times> bool) \<times> 'w io"
where
  \<comment> \<open>every exception of the request is caught and gives no competitions and \<open>False\<close>\<close>
  "scrape_page session params page st =
     (case send session (Get_Listing (params_with_page params page)) st of
        (None, st') \<Rightarrow> (([], False), st')
      | (Some soup, st') \<Rightarrow> ((parse_competitions soup page, True), st'))"

partial_function (option) page_loop ::
  "'w session \<Rightarrow> (string \<rightharpoonup> string) \<Rightarrow> int \<Rightarrow> pydict list \<Rightarrow> 'w io
     \<Rightarrow> (pydict list \<times> 'w io) option"
where
  \<comment> \<open>\<open>while True:\<close> over the pages; a run that asks for pages forever has no value\<close>
  "page_loop session params page all_competitions st =
     (case scrape_page session params page st of
        ((competitions, success), st1) \<Rightarrow>
          if \<not> success \<or> competitions = [] then Some (all_competitions, st1)
          else if length competitions < COMPETITIONS_PER_PAGE then
            Some (all_competitions @ competitions, st1)
          else page_loop session params (page + 1) (all_competitions @ competitions)
                 (sleep DEFAULT_DELAY st1))"

partial_function (option) batch_loop ::
  "'w session \<Rightarrow> (string \<rightharpoonup> string) \<Rightarrow> int \<Rightarrow> int \<Rightarrow> int \<Rightarrow> int \<Rightarrow> pydict list \<Rightarrow> 'w io
     \<Rightarrow> (error + pydict list \<times> int \<times> 'w io) option"
where
  \<comment> \<open>\<open>while current_start <= end_dt:\<close> with the variables \<open>current_start\<close>, \<open>batch_idx\<close>
      and \<open>all_competitions\<close>\<close>
  "batch_loop session params batch_days end_dt current_start batch_idx all_competitions st =
     (if current_start \<le> end_dt then
        (case add_days current_start batch_days of
           Inl e \<Rightarrow> Some (Inl e)
         | Inr shifted \<Rightarrow>
             (case page_loop session
                     (params(''frmdate1'' \<mapsto> strftime current_start,
                             ''frmdate2'' \<mapsto> strftime (min shifted end_dt)))
                     1 all_competitions st of
                None \<Rightarrow> None
              | Some (all', st') \<Rightarrow>
                  (case add_days (min shifted end_dt) 1 of
                     Inl e \<Rightarrow> Some (Inl e)
                   | Inr next_start \<Rightarrow>
                       batch_loop session params batch_days end_dt next_start (batch_idx + 1)
                         all' st')))
      else Some (Inr (all_competitions, batch_idx, st)))"


text \<open>
  The batch splitter as the specification words it: the batches
  \<open>[cur, min(cur + batch_days, end)]\<close>, with \<open>cur\<close> advanced to the day after the end
  of the batch before, until \<open>cur > end\<close>.
\<close>

function split_range :: "int \<Rightarrow> int \<Rightarrow> int \<Rightarrow> (int \<times> int) list" where
  "split_range cur end_dt batch_days =
     (if cur \<le> end_dt \<and> 0 \<le> batch_days
      then (cur, min (cur + batch_days) end_dt)
             # split_range (min (cur + batch_days) end_dt + 1) end_dt batch_days
      else [])"
  by pat_completeness auto
termination
  by (relation "measure (\<lambda>(cur, end_dt, batch_days). nat (end_dt + 1 - cur))") auto

declare split_range.simps [simp del]


section \<open>Properties of the listing parser\<close>

lemma parse_rows_filter:
  "parse_rows rows page =
     map (\<lambda>cells. parse_row cells page) (filter (\<lambda>cells. 7 \<le> length cells) rows)"
  by (induction rows) auto

lemma parse_rows_append:
  "parse_rows (xs @ ys) page = parse_rows xs page @ parse_rows ys page"
  by (simp add: parse_rows_filter)

lemma parse_row_detail_url:
  "parse_row cells page ''Detail_URL'' = Some (Str (detail_url_of cells))"
  by (simp add: parse_row_def Let_def)

lemma is_absolute_url_base: "is_absolute_url (''https://www.athle.fr'' @ h)"
  by (simp add: is_absolute_url_def is_decimal_def)

lemma is_absolute_url_not_slash: "is_absolute_url h \<Longrightarrow> \<not> startswith ''/'' h"
  by (cases h) (auto simp: is_absolute_url_def)

text \<open>
  C7. A row of fewer than 7 cells adds nothing to the output of the listing parser,
  and the rows before it and after it are parsed as they are without it; the output
  has one record for each row of at least 7 cells.
\<close>

theorem short_rows_excluded:
  assumes "length cells < 7"
  shows "parse_competitions (soup\<lparr>clignotant_rows := before @ cells # after\<rparr>) page
           = parse_rows before page @ parse_rows after page
         \<and> length (parse_competitions (soup\<lparr>clignotant_rows := before @ cells # after\<rparr>) page)
           = length (filter (\<lambda>row. 7 \<le> length row) (before @ after))"
  using assms by (simp add: parse_competitions_def parse_rows_filter)

theorem short_rows_excluded_witness:
  "length [\<lparr>cell_text = ''Total'', cell_anchors = []\<rparr>] < 7
   \<and> parse_competitions
        (\<lparr>clignotant_rows = [], infoPratique = None, club_card = None, epreuves = None\<rparr>
          \<lparr>clignotant_rows :=
             [replicate 7 \<lparr>cell_text = ''a'', cell_anchors = []\<rparr>]
             @ [\<lparr>cell_text = ''Total'', cell_anchors = []\<rparr>]
             # [replicate 7 \<lparr>cell_text = ''b'', cell_anchors = []\<rparr>]\<rparr>) 1
       = parse_rows [replicate 7 \<lparr>cell_text = ''a'', cell_anchors = []\<rparr>] 1
         @ parse_rows [replicate 7 \<lparr>cell_text = ''b'', cell_anchors = []\<rparr>] 1"
proof -
  have h: "length [\<lparr>cell_text = ''Total'', cell_anchors = []\<rparr>] < 7" by simp
  show ?thesis
    using h short_rows_excluded [OF h,
      where soup = "\<lparr>clignotant_rows = [], infoPratique = None, club_card = None, epreuves = None\<rparr>"
        and before = "[replicate 7 \<lparr>cell_text = ''a'', cell_anchors = []\<rparr>]"
        and after = "[replicate 7 \<lparr>cell_text = ''b'', cell_anchors = []\<rparr>]" and page = 1]
    by blast
qed

text \<open>
  C6, as the claim states it, fails: an href that neither begins with \<open>/\<close> nor is
  absolute is stored as it is, so the detail URL of the row is neither empty nor
  absolute.
\<close>

theorem detail_url_relative_counterexample:
  "length (parse_competitions
      \<lparr>clignotant_rows =
         [replicate 6 \<lparr>cell_text = ''a'', cell_anchors = []\<rparr>
          @ [\<lparr>cell_text = ''fiche'',
              cell_anchors = [\<lparr>a_title = None, a_href = Some ''fiche.aspx?id=1''\<rparr>]\<rparr>]],
       infoPratique = None, club_card = None, epreuves = None\<rparr> 1) = 1
   \<and> hd (parse_competitions
      \<lparr>clignotant_rows =
         [replicate 6 \<lparr>cell_text = ''a'', cell_anchors = []\<rparr>
          @ [\<lparr>cell_text = ''fiche'',
              cell_anchors = [\<lparr>a_title = None, a_href = Some ''fiche.aspx?id=1''\<rparr>]\<rparr>]],
       infoPratique = None, club_card = None, epreuves = None\<rparr> 1) ''Detail_URL''
     = Some (Str ''fiche.aspx?id=1'')
   \<and> ''fiche.aspx?id=1'' \<noteq> []
   \<and> \<not> is_absolute_url ''fiche.aspx?id=1''"
  by (simp add: parse_competitions_def parse_row_def detail_url_of_def href_of_def
      numeral_eq_Suc is_absolute_url_def is_decimal_def)

text \<open>
  C6, amended. Every record of the listing parser comes from a row of at least 7
  cells and has a detail URL that is empty when the first anchor of cell 6 is missing
  or has no href, the href under the site base when the href begins with \<open>/\<close>, and
  the href unchanged otherwise. So the detail URL is empty or absolute whenever the
  href is missing, begins with \<open>/\<close> or is absolute, and an absolute href is kept.
\<close>

theorem detail_url_rewrite:
  assumes "r \<in> set (parse_competitions soup page)"
  shows "\<exists>cells \<in> set (clignotant_rows soup). \<exists>u.
           7 \<le> length cells \<and> r = parse_row cells page \<and> r ''Detail_URL'' = Some (Str u)
           \<and> u = (case href_of (cells ! 6) of
                    None \<Rightarrow> []
                  | Some h \<Rightarrow> if startswith ''/'' h then ''https://www.athle.fr'' @ h else h)
           \<and> (\<forall>h. href_of (cells ! 6) = Some h \<and> is_absolute_url h \<longrightarrow> u = h)
           \<and> ((\<forall>h. href_of (cells ! 6) = Some h \<longrightarrow> startswith ''/'' h \<or> is_absolute_url h)
                \<longrightarrow> u = [] \<or> is_absolute_url u)"
proof -
  from assms obtain cells where c: "cells \<in> set (clignotant_rows soup)" "7 \<le> length cells"
    "r = parse_row cells page"
    by (auto simp: parse_competitions_def parse_rows_filter)
  let ?u = "detail_url_of cells"
  have u: "?u = (case href_of (cells ! 6) of
                    None \<Rightarrow> []
                  | Some h \<Rightarrow> if startswith ''/'' h then ''https://www.athle.fr'' @ h else h)"
    using c(2) by (simp add: detail_url_of_def)
  have a: "\<forall>h. href_of (cells ! 6) = Some h \<and> is_absolute_url h \<longrightarrow> ?u = h"
    using u is_absolute_url_not_slash by auto
  have b: "(\<forall>h. href_of (cells ! 6) = Some h \<longrightarrow> startswith ''/'' h \<or> is_absolute_url h)
             \<longrightarrow> ?u = [] \<or> is_absolute_url ?u"
    using u is_absolute_url_base by (auto split: option.splits)
  show ?thesis
    using c u a b parse_row_detail_url [of cells page] by blast
qed

theorem detail_url_rewrite_witness:
  "parse_row (replicate 6 \<lparr>cell_text = ''a'', cell_anchors = []\<rparr>
       @ [\<lparr>cell_text = ''fiche'',
           cell_anchors = [\<lparr>a_title = None, a_href = Some ''/competitions/1''\<rparr>]\<rparr>]) 1
     \<in> set (parse_competitions
        \<lparr>clignotant_rows =
           [replicate 6 \<lparr>cell_text = ''a'', cell_anchors = []\<rparr>
            @ [\<lparr>cell_text = ''fiche'',
                cell_anchors = [\<lparr>a_title = None, a_href = Some ''/competitions/1''\<rparr>]\<rparr>]],
         infoPratique = None, club_card = None, epreuves = None\<rparr> 1)
   \<and> parse_row (replicate 6 \<lparr>cell_text = ''a'', cell_anchors = []\<rparr>
       @ [\<lparr>cell_text = ''fiche'',
           cell_anchors = [\<lparr>a_title = None, a_href = Some ''/competitions/1''\<rparr>]\<rparr>]) 1
       ''Detail_URL'' = Some (Str ''https://www.athle.fr/competitions/1'')"
proof -
  let ?cells = "replicate 6 \<lparr>cell_text = ''a'', cell_anchors = []\<rparr>
       @ [\<lparr>cell_text = ''fiche'',
           cell_anchors = [\<lparr>a_title = None, a_href = Some ''/competitions/1''\<rparr>]\<rparr>]"
  let ?soup = "\<lparr>clignotant_rows = [?cells], infoPratique = None, club_card = None,
       epreuves = None\<rparr>"
  have h: "parse_row ?cells 1 \<in> set (parse_competitions ?soup 1)"
    by (simp add: parse_competitions_def)
  have e: "href_of (?cells ! 6) = Some ''/competitions/1''"
    by (simp add: href_of_def numeral_eq_Suc)
  from detail_url_rewrite [OF h] obtain u where
    "parse_row ?cells 1 ''Detail_URL'' = Some (Str u)"
    "u = (case href_of (?cells ! 6) of
            None \<Rightarrow> []
          | Some h \<Rightarrow> if startswith ''/'' h then ''https://www.athle.fr'' @ h else h)"
    by auto
  with e h show ?thesis by simp
qed
section \<open>Properties of the detail parser\<close>

lemma ensure_fields_keep: "d k \<noteq> None \<Longrightarrow> ensure_fields fs d k = d k"
proof (induction fs arbitrary: d)
  case Nil
  then show ?case by simp
next
  case (Cons a fs)
  let ?d = "if d a = None then d(a \<mapsto> Str []) else d"
  have "?d k = d k" using Cons.prems by auto
  then show ?case using Cons.IH [of ?d] Cons.prems by simp
qed







lemma ensure_result_lookup:
  assumes "d k \<noteq> None"
  shows "(if ensure_fields fs d ''Events_Count'' = None
          then (ensure_fields fs d)(''Events_Count'' \<mapsto> Num 0)
          else ensure_fields fs d) k = d k"
proof (cases "k = ''Events_Count''")
  case True
  then have "ensure_fields fs d ''Events_Count'' \<noteq> None"
    using assms ensure_fields_keep [of d k fs] by simp
  then show ?thesis using True assms ensure_fields_keep [of d k fs] by simp
next
  case False
  then show ?thesis using assms ensure_fields_keep [of d k fs] by simp
qed

lemma parse_detail_page_lookup:
  assumes "collect_fields soup k \<noteq> None"
  shows "parse_detail_page soup k = collect_fields soup k"
  unfolding parse_detail_page_def Let_def
  using assms by (rule ensure_result_lookup)



lemma event_names_filter: "event_names cards = map the (filter (\<lambda>h. h \<noteq> None) cards)"
  by (induction cards rule: event_names.induct) auto







text \<open>
  C5. The events count of a detail page is the number of headings collected from the
  event cards, in document order, and the events list is these headings joined; a
  page without event cards has the count 0 and the empty list.
\<close>

theorem events_count_matches:
  "parse_detail_page soup ''Events_Count'' = Some (Num (int (length (events_list_of soup))))
   \<and> parse_detail_page soup ''Events_List'' = Some (Str (join ''; '' (events_list_of soup)))
   \<and> events_list_of soup
       = (case epreuves soup of
            None \<Rightarrow> []
          | Some event_cards \<Rightarrow> map the (filter (\<lambda>header. header \<noteq> None) event_cards))
   \<and> ((case epreuves soup of None \<Rightarrow> [] | Some event_cards \<Rightarrow> event_cards) = []
        \<longrightarrow> parse_detail_page soup ''Events_Count'' = Some (Num 0)
            \<and> parse_detail_page soup ''Events_List'' = Some (Str []))"
proof -
  have c5: "collect_fields soup ''Events_Count''
              = Some (Num (int (length (events_list_of soup))))"
    by (simp add: collect_fields_def Let_def)
  have l5: "collect_fields soup ''Events_List''
              = Some (Str (join ''; '' (events_list_of soup)))"
    by (simp add: collect_fields_def Let_def)
  have c: "parse_detail_page soup ''Events_Count''
             = Some (Num (int (length (events_list_of soup))))"
    using c5 parse_detail_page_lookup [of soup "''Events_Count''"] by simp
  have l: "parse_detail_page soup ''Events_List''
             = Some (Str (join ''; '' (events_list_of soup)))"
    using l5 parse_detail_page_lookup [of soup "''Events_List''"] by simp
  have e: "events_list_of soup
       = (case epreuves soup of
            None \<Rightarrow> []
          | Some event_cards \<Rightarrow> map the (filter (\<lambda>header. header \<noteq> None) event_cards))"
    by (simp add: events_list_of_def event_names_filter split: option.splits)
  have z: "(case epreuves soup of None \<Rightarrow> [] | Some event_cards \<Rightarrow> event_cards) = []
        \<Longrightarrow> events_list_of soup = []"
    by (auto simp: events_list_of_def split: option.splits)
  show ?thesis using c l e z by simp
qed

theorem events_count_matches_witness:
  "parse_detail_page \<lparr>clignotant_rows = [], infoPratique = None, club_card = None,
       epreuves = Some []\<rparr> ''Events_Count'' = Some (Num 0)
   \<and> parse_detail_page \<lparr>clignotant_rows = [], infoPratique = None, club_card = None,
       epreuves = Some []\<rparr> ''Events_List'' = Some (Str [])"
  using events_count_matches [of "\<lparr>clignotant_rows = [], infoPratique = None,
       club_card = None, epreuves = Some []\<rparr>"]
  by simp

section \<open>Properties of the detail enrichment driver\<close>

lemma ensure_fields_dom: "dom (ensure_fields fs d) = dom d \<union> set fs"
  by (induction fs arbitrary: d) (auto split: if_splits)

lemma email_from_links_dom:
  "dom d \<subseteq> enrichment_keys \<Longrightarrow> dom (email_from_links links d) \<subseteq> enrichment_keys"
  by (induction links) (auto simp: Let_def enrichment_keys_def split: if_splits)

lemma parse_paragraph_dom:
  "dom d \<subseteq> enrichment_keys \<Longrightarrow> dom (parse_paragraph text d) \<subseteq> enrichment_keys"
proof -
  have k: "''Organizer_Name'' \<in> enrichment_keys" "''Organizer_Address'' \<in> enrichment_keys"
    "''Organizer_Phone'' \<in> enrichment_keys" "''Organizer_Email'' \<in> enrichment_keys"
    "''Organizer_Website'' \<in> enrichment_keys" "''Stadium_Address'' \<in> enrichment_keys"
    by (simp_all add: enrichment_keys_def)
  assume "dom d \<subseteq> enrichment_keys"
  then show ?thesis
    unfolding parse_paragraph_def Let_def
    using k by (simp split: option.splits)
qed

lemma parse_paragraphs_dom:
  "dom d \<subseteq> enrichment_keys \<Longrightarrow> dom (parse_paragraphs ps d) \<subseteq> enrichment_keys"
  by (induction ps arbitrary: d) (simp_all add: parse_paragraph_dom)

lemma parse_info_dom:
  "dom d \<subseteq> enrichment_keys \<Longrightarrow> dom (parse_info info d) \<subseteq> enrichment_keys"
  by (simp add: parse_info_def parse_paragraphs_dom email_from_links_dom split: option.splits)

lemma email_fallback_dom:
  "dom d \<subseteq> enrichment_keys \<Longrightarrow> dom (email_fallback info d) \<subseteq> enrichment_keys"
  by (simp add: email_fallback_def enrichment_keys_def split: option.splits)

lemma parse_club_card_dom:
  "dom d \<subseteq> enrichment_keys \<Longrightarrow> dom (parse_club_card club d) \<subseteq> enrichment_keys"
  by (simp add: parse_club_card_def Let_def enrichment_keys_def split: option.splits)

lemma collect_fields_dom:
  "dom (collect_fields soup) \<subseteq> enrichment_keys"
  "''Events_Count'' \<in> dom (collect_fields soup)"
proof -
  have "dom (parse_club_card (club_card soup)
          (email_fallback (infoPratique soup) (parse_info (infoPratique soup) Map.empty)))
        \<subseteq> enrichment_keys"
    by (intro parse_club_card_dom email_fallback_dom parse_info_dom) simp
  then show "dom (collect_fields soup) \<subseteq> enrichment_keys"
    by (simp add: collect_fields_def Let_def enrichment_keys_def)
  show "''Events_Count'' \<in> dom (collect_fields soup)"
    by (simp add: collect_fields_def Let_def)
qed

lemma parse_detail_page_dom: "dom (parse_detail_page soup) = enrichment_keys"
proof -
  let ?fs = "[''Organizer_Name'', ''Organizer_Address'', ''Organizer_Phone'',
             ''Organizer_Email'', ''Organizer_Website'', ''Stadium_Address'',
             ''Competition_Code'', ''Contact_Person'', ''Events_List'']"
  have "collect_fields soup ''Events_Count'' \<noteq> None"
    using collect_fields_dom(2) [of soup] by blast
  then have "ensure_fields ?fs (collect_fields soup) ''Events_Count'' \<noteq> None"
    using ensure_fields_keep [of "collect_fields soup" "''Events_Count''" ?fs]
    by (simp del: ensure_fields.simps)
  then have "parse_detail_page soup = ensure_fields ?fs (collect_fields soup)"
    unfolding parse_detail_page_def Let_def by (auto simp del: ensure_fields.simps)
  then have "dom (parse_detail_page soup) = dom (collect_fields soup) \<union> set ?fs"
    by (simp only: ensure_fields_dom)
  moreover have "set ?fs \<union> {''Events_Count''} = enrichment_keys"
    by (auto simp: enrichment_keys_def)
  ultimately show ?thesis
    using collect_fields_dom [of soup] by blast
qed

lemma enriched_cases:
  "enriched session w c = c \<or> (\<exists>soup. enriched session w c = c ++ parse_detail_page soup)"
  by (auto simp: enriched_def split: option.splits)

lemma enriched_frame: "k \<notin> enrichment_keys \<Longrightarrow> enriched session w c k = c k"
  using enriched_cases [of session w c] parse_detail_page_dom
  by (auto simp: map_add_dom_app_simps)

lemma detail_loop_step:
  assumes "status_message status (h r) = None \<or> \<not> truthy (h r ''Detail_URL'')"
  shows "detail_loop session status (r # rs) updated st h
           = detail_loop session status rs (updated @ [r]) (after_record session (h r) st)
               (h(r := enriched session (world st) (h r)))"
proof (cases "truthy (h r ''Detail_URL'')")
  case False
  then show ?thesis
    by (auto simp: enriched_def after_record_def split: option.splits)
next
  case True
  then obtain url where u: "h r ''Detail_URL'' = Some url" by (cases "h r ''Detail_URL''") auto
  with True assms have m: "status_message status (h r) = None" by simp
  obtain response w where q: "session (world st) (Get_Detail url) = (response, w)"
    by (cases "session (world st) (Get_Detail url)")
  show ?thesis
    using True u m q
    by (cases response)
      (simp_all add: enriched_def after_record_def scrape_detail_page_def send_def)
qed

lemma after_record_trace: "trace (after_record session c st) = trace st @ events_of c"
  by (simp add: after_record_def events_of_def sleep_def send_def split: prod.splits)

lemma detail_loop_append:
  "detail_loop session status (xs @ ys) updated st h =
     (case detail_loop session status xs updated st h of
        Inl e \<Rightarrow> Inl e
      | Inr (mid, st', h') \<Rightarrow> detail_loop session status ys mid st' h')"
  by (induction xs arbitrary: updated st h) (auto split: option.splits prod.splits)

lemma scrape_detail_pages_loop:
  "scrape_detail_pages session refs status st h = detail_loop session status refs [] st h"
  by (simp add: scrape_detail_pages_def)

lemma map_add_absorb: "dom d1 = dom d2 \<Longrightarrow> (c ++ d1) ++ d2 = c ++ d2"
  by (rule ext) (auto simp: map_add_def split: option.splits)

lemma merge_twice:
  "(c ++ parse_detail_page soup1) ++ parse_detail_page soup2 = c ++ parse_detail_page soup2"
  by (rule map_add_absorb) (simp add: parse_detail_page_dom)

lemma enriched_url: "enriched session w c ''Detail_URL'' = c ''Detail_URL''"
  by (rule enriched_frame) (simp add: enrichment_keys_def)

lemma enriched_skipped: "\<not> truthy (c ''Detail_URL'') \<Longrightarrow> enriched session w c = c"
  by (simp add: enriched_def)

lemma events_of_url: "c' ''Detail_URL'' = c ''Detail_URL'' \<Longrightarrow> events_of c' = events_of c"
  by (simp add: events_of_def)

lemma detail_loop_run:
  assumes "status \<longrightarrow> (\<forall>r \<in> set refs. \<exists>s. h r ''Event'' = Some (Str s))"
  shows "\<exists>st' h'. detail_loop session status refs updated st h = Inr (updated @ refs, st', h')
            \<and> trace st' = trace st @ concat (map (\<lambda>r. events_of (h r)) refs)
            \<and> (\<forall>r k. k \<notin> enrichment_keys \<longrightarrow> h' r k = h r k)
            \<and> (\<forall>r. r \<notin> set refs \<longrightarrow> h' r = h r)
            \<and> (\<forall>r. h' r = h r \<or> (\<exists>soup. h' r = h r ++ parse_detail_page soup))
            \<and> (\<forall>r. \<not> truthy (h r ''Detail_URL'') \<longrightarrow> h' r = h r)"
  using assms
proof (induction refs arbitrary: updated st h)
  case Nil
  then show ?case by simp
next
  case (Cons c refs)
  let ?h1 = "h(c := enriched session (world st) (h c))"
  let ?st1 = "after_record session (h c) st"
  have m: "status_message status (h c) = None \<or> \<not> truthy (h c ''Detail_URL'')"
    using Cons.prems by (auto simp: status_message_def)
  have f1: "k \<notin> enrichment_keys \<Longrightarrow> ?h1 r k = h r k" for r k
    by (simp add: enriched_frame)
  have u1: "?h1 r ''Detail_URL'' = h r ''Detail_URL''" for r
    by (rule f1) (simp add: enrichment_keys_def)
  have e1: "?h1 r ''Event'' = h r ''Event''" for r
    by (rule f1) (simp add: enrichment_keys_def)
  have c1: "?h1 r = h r \<or> (\<exists>soup. ?h1 r = h r ++ parse_detail_page soup)" for r
    using enriched_cases [of session "world st" "h c"] by auto
  have s1: "\<not> truthy (h r ''Detail_URL'') \<Longrightarrow> ?h1 r = h r" for r
    by (auto simp: enriched_skipped)
  have "status \<longrightarrow> (\<forall>r \<in> set refs. \<exists>s. ?h1 r ''Event'' = Some (Str s))"
    using Cons.prems e1 by simp
  with Cons.IH [of ?h1 "updated @ [c]" ?st1]
  obtain st' h' where
    o: "detail_loop session status refs (updated @ [c]) ?st1 ?h1
          = Inr ((updated @ [c]) @ refs, st', h')"
      "trace st' = trace ?st1 @ concat (map (\<lambda>r. events_of (?h1 r)) refs)"
      "\<forall>r k. k \<notin> enrichment_keys \<longrightarrow> h' r k = ?h1 r k"
      "\<forall>r. r \<notin> set refs \<longrightarrow> h' r = ?h1 r"
      "\<forall>r. h' r = ?h1 r \<or> (\<exists>soup. h' r = ?h1 r ++ parse_detail_page soup)"
      "\<forall>r. \<not> truthy (?h1 r ''Detail_URL'') \<longrightarrow> h' r = ?h1 r"
    by blast
  have "detail_loop session status (c # refs) updated st h
          = Inr (updated @ c # refs, st', h')"
    using detail_loop_step [where h = h and r = c and status = status and session = session
        and rs = refs and updated = updated and st = st] m o(1)
    by (simp del: detail_loop.simps)
  moreover have "trace st' = trace st @ concat (map (\<lambda>r. events_of (h r)) (c # refs))"
  proof -
    have "(\<lambda>r. events_of (?h1 r)) = (\<lambda>r. events_of (h r))"
      by (rule ext) (rule events_of_url, rule u1)
    with o(2) have "trace st' = trace ?st1 @ concat (map (\<lambda>r. events_of (h r)) refs)"
      by (simp only:)
    then show ?thesis by (simp add: after_record_trace)
  qed
  moreover have "\<forall>r k. k \<notin> enrichment_keys \<longrightarrow> h' r k = h r k"
    using o(3) f1 by simp
  moreover have "\<forall>r. r \<notin> set (c # refs) \<longrightarrow> h' r = h r"
    using o(4) by simp
  moreover have "\<forall>r. h' r = h r \<or> (\<exists>soup. h' r = h r ++ parse_detail_page soup)"
  proof
    fix r
    from c1 [of r] o(5) show "h' r = h r \<or> (\<exists>soup. h' r = h r ++ parse_detail_page soup)"
      by (metis merge_twice)
  qed
  moreover have "\<forall>r. \<not> truthy (h r ''Detail_URL'') \<longrightarrow> h' r = h r"
    using o(6) u1 s1 by metis
  ultimately show ?case by blast
qed

lemma detail_loop_at:
  assumes "status \<longrightarrow> (\<forall>r \<in> set (before @ c # rest). \<exists>s. h r ''Event'' = Some (Str s))"
  shows "\<exists>st_i h_i st' h'.
           detail_loop session status before [] st h = Inr (before, st_i, h_i)
         \<and> detail_loop session status (before @ [c]) [] st h
             = Inr (before @ [c], after_record session (h_i c) st_i,
                    h_i(c := enriched session (world st_i) (h_i c)))
         \<and> detail_loop session status rest (before @ [c]) (after_record session (h_i c) st_i)
               (h_i(c := enriched session (world st_i) (h_i c)))
             = Inr (before @ c # rest, st', h')
         \<and> detail_loop session status (before @ c # rest) [] st h
             = Inr (before @ c # rest, st', h')
         \<and> (\<forall>k. k \<notin> enrichment_keys \<longrightarrow> h_i c k = h c k)
         \<and> (c \<notin> set before \<longrightarrow> h_i c = h c)
         \<and> (\<not> truthy (h c ''Detail_URL'') \<longrightarrow> h_i c = h c)
         \<and> (c \<notin> set rest \<longrightarrow> h' c = enriched session (world st_i) (h_i c))"
proof -
  have hb: "status \<longrightarrow> (\<forall>r \<in> set before. \<exists>s. h r ''Event'' = Some (Str s))"
    using assms by auto
  with detail_loop_run [of status before h session "[]" st]
  obtain st_i h_i where
    b: "detail_loop session status before [] st h = Inr (before, st_i, h_i)"
      "\<forall>r k. k \<notin> enrichment_keys \<longrightarrow> h_i r k = h r k"
      "\<forall>r. r \<notin> set before \<longrightarrow> h_i r = h r"
      "\<forall>r. \<not> truthy (h r ''Detail_URL'') \<longrightarrow> h_i r = h r"
    by auto
  let ?h1 = "h_i(c := enriched session (world st_i) (h_i c))"
  let ?st1 = "after_record session (h_i c) st_i"
  have ev: "''Event'' \<notin> enrichment_keys" "''Detail_URL'' \<notin> enrichment_keys"
    by (simp_all add: enrichment_keys_def)
  have e_i: "h_i r ''Event'' = h r ''Event''" "h_i r ''Detail_URL'' = h r ''Detail_URL''" for r
    using b(2) ev by simp_all
  have m: "status_message status (h_i c) = None \<or> \<not> truthy (h_i c ''Detail_URL'')"
    using assms e_i by (auto simp: status_message_def)
  have s: "detail_loop session status (c # rs) before st_i h_i
             = detail_loop session status rs (before @ [c]) ?st1 ?h1" for rs
    using detail_loop_step [where h = h_i and r = c and status = status and session = session
        and rs = rs and updated = before and st = st_i] m
    by simp
  have one: "detail_loop session status (before @ [c]) [] st h = Inr (before @ [c], ?st1, ?h1)"
    using b(1) s [of "[]"] by (simp add: detail_loop_append del: detail_loop.simps(2))
  have "?h1 r ''Event'' = h r ''Event''" for r
    using e_i(1) ev(1) by (auto simp: enriched_frame)
  then have hr: "status \<longrightarrow> (\<forall>r \<in> set rest. \<exists>s. ?h1 r ''Event'' = Some (Str s))"
    using assms by (simp del: fun_upd_apply)
  with detail_loop_run [of status rest ?h1 session "before @ [c]" ?st1]
  obtain st' h' where
    r: "detail_loop session status rest (before @ [c]) ?st1 ?h1
          = Inr ((before @ [c]) @ rest, st', h')"
      "\<forall>r. r \<notin> set rest \<longrightarrow> h' r = ?h1 r"
    by auto
  have w: "detail_loop session status (before @ c # rest) [] st h
             = Inr (before @ c # rest, st', h')"
    using b(1) s [of rest] r(1) by (simp add: detail_loop_append del: detail_loop.simps(2))
  have "c \<notin> set rest \<longrightarrow> h' c = enriched session (world st_i) (h_i c)"
    using r(2) by simp
  then show ?thesis
    using b one r(1) w by auto
qed

lemma requests_of_events:
  "length (filter is_request (concat (map (\<lambda>r. events_of (h r)) refs)))
     = length (filter (\<lambda>r. truthy (h r ''Detail_URL'')) refs)"
  by (induction refs) (simp_all add: events_of_def)

text \<open>
  C4, as the claim states it, fails: a record whose detail URL is empty is passed over
  before the pause, so a run over one such record makes no pause at all.
\<close>

theorem no_delay_for_skipped_counterexample:
  "map_sum id (\<lambda>(out, st', store'). (out, trace st'))
     (scrape_detail_pages (\<lambda>w r. (None, w)) [0] False \<lparr>world = (), trace = []\<rparr>
        (\<lambda>r. parse_row (replicate 7 \<lparr>cell_text = ''a'', cell_anchors = []\<rparr>) 1))
   = Inr ([0], [])"
  by (simp add: scrape_detail_pages_def parse_row_def detail_url_of_def href_of_def
      numeral_eq_Suc)

text \<open>
  C4, amended. The driver pauses for \<open>DEFAULT_DELAY\<close> seconds, which is one second,
  after the request of every record whose detail URL is not empty, whether the request
  succeeds or fails; a record without a detail URL adds nothing to the trace, so no
  pause follows it. The run returns the list it was given.
\<close>

theorem delay_after_fetched_records:
  assumes "status_text \<longrightarrow> (\<forall>r \<in> set comps. \<exists>s. store r ''Event'' = Some (Str s))"
  shows "\<exists>st' store'.
             scrape_detail_pages session comps status_text st store = Inr (comps, st', store')
           \<and> trace st' = trace st @ concat (map (\<lambda>r. events_of (store r)) comps)
           \<and> (\<forall>r. events_of r =
                 (if truthy (r ''Detail_URL'')
                  then [Request (Get_Detail (the (r ''Detail_URL''))), Sleep DEFAULT_DELAY]
                  else []))
           \<and> DEFAULT_DELAY = 1"
  using assms detail_loop_run [of status_text comps store session "[]" st]
  by (auto simp: scrape_detail_pages_loop events_of_def DEFAULT_DELAY_def)

theorem delay_after_fetched_records_witness:
  "map_sum id (\<lambda>(out, st', store'). (out, trace st'))
     (scrape_detail_pages (\<lambda>w r. (None, w)) [0] True \<lparr>world = (), trace = []\<rparr>
        (\<lambda>r. [''Detail_URL'' \<mapsto> Str ''https://www.athle.fr/competitions/1'',
               ''Event'' \<mapsto> Str ''Cross'']))
   = Inr ([0], [Request (Get_Detail (Str ''https://www.athle.fr/competitions/1'')), Sleep 1])"
proof -
  let ?store = "\<lambda>r::ref. [''Detail_URL'' \<mapsto> Str ''https://www.athle.fr/competitions/1'',
               ''Event'' \<mapsto> Str ''Cross'']"
  have h: "True \<longrightarrow> (\<forall>r \<in> set [0]. \<exists>s. ?store r ''Event'' = Some (Str s))" by simp
  from h delay_after_fetched_records [where status_text = True and comps = "[0]"
      and store = ?store and session = "\<lambda>w r. (None, w)"
      and st = "\<lparr>world = (), trace = []\<rparr>"]
  obtain st' store' where
    "scrape_detail_pages (\<lambda>w r. (None, w)) [0] True \<lparr>world = (), trace = []\<rparr> ?store
       = Inr ([0], st', store')"
    "trace st' = trace \<lparr>world = (), trace = []\<rparr> @ concat (map (\<lambda>r. events_of (?store r)) [0])"
    by blast
  then show ?thesis by (simp add: events_of_def DEFAULT_DELAY_def)
qed

text \<open>
  C8. A run over a list returns the list, whatever the requests answer, and its trace
  has the request and the pause of every record with a detail URL, in the order of
  the list: no failure ends the run. The run up to and with a record is the run up to
  the record followed by one step, and the whole run is this followed by the run over
  the records after it. The step of a record whose detail URL is empty changes
  neither the store nor the state, and the record is at the end of the run what it
  was at the start; when it comes from the listing parser its enrichment fields are
  the defaults. The step of a record whose request fails leaves the store as it
  was, and a record that is in the list once is then at the end what it was at the
  start; the step of a record whose request is answered merges the result of the
  page into the record.
\<close>

theorem enrichment_soft_failure:
  assumes "status_text \<longrightarrow>
             (\<forall>r \<in> set (before @ competition # rest). \<exists>s. store r ''Event'' = Some (Str s))"
  shows "\<exists>st_i store_i st' store'.
           detail_loop session status_text before [] st store = Inr (before, st_i, store_i)
         \<and> detail_loop session status_text (before @ [competition]) [] st store
             = Inr (before @ [competition], after_record session (store_i competition) st_i,
                    store_i(competition :=
                      enriched session (world st_i) (store_i competition)))
         \<and> detail_loop session status_text rest (before @ [competition])
               (after_record session (store_i competition) st_i)
               (store_i(competition := enriched session (world st_i) (store_i competition)))
             = Inr (before @ competition # rest, st', store')
         \<and> scrape_detail_pages session (before @ competition # rest) status_text st store
             = Inr (before @ competition # rest, st', store')
         \<and> trace st' = trace st
              @ concat (map (\<lambda>r. events_of (store r)) (before @ competition # rest))
         \<and> store_i competition ''Detail_URL'' = store competition ''Detail_URL''
         \<and> (\<not> truthy (store competition ''Detail_URL'') \<longrightarrow>
               store_i(competition := enriched session (world st_i) (store_i competition))
                 = store_i
             \<and> after_record session (store_i competition) st_i = st_i
             \<and> store_i competition = store competition
             \<and> store' competition = store competition)
         \<and> (fst (session (world st_i) (Get_Detail (the (store competition ''Detail_URL''))))
               = None \<longrightarrow>
               store_i(competition := enriched session (world st_i) (store_i competition))
                 = store_i
             \<and> (competition \<notin> set before \<and> competition \<notin> set rest \<longrightarrow>
                  store' competition = store competition))
         \<and> (\<forall>soup. truthy (store competition ''Detail_URL'')
               \<and> fst (session (world st_i)
                        (Get_Detail (the (store competition ''Detail_URL'')))) = Some soup \<longrightarrow>
               enriched session (world st_i) (store_i competition)
                 = store_i competition ++ parse_detail_page soup)
         \<and> (\<forall>cells page. store competition = parse_row cells page \<and> detail_url_of cells = []
              \<longrightarrow> (\<forall>k \<in> enrichment_keys. store' competition k
                     = (if k = ''Events_Count'' then Some (Num 0) else Some (Str []))))"
proof -
  from assms detail_loop_at [of status_text before competition rest store session st]
  obtain st_i store_i st' store' where
    r: "detail_loop session status_text before [] st store = Inr (before, st_i, store_i)"
      "detail_loop session status_text (before @ [competition]) [] st store
         = Inr (before @ [competition], after_record session (store_i competition) st_i,
                store_i(competition := enriched session (world st_i) (store_i competition)))"
      "detail_loop session status_text rest (before @ [competition])
           (after_record session (store_i competition) st_i)
           (store_i(competition := enriched session (world st_i) (store_i competition)))
         = Inr (before @ competition # rest, st', store')"
      "detail_loop session status_text (before @ competition # rest) [] st store
         = Inr (before @ competition # rest, st', store')"
      "\<forall>k. k \<notin> enrichment_keys \<longrightarrow> store_i competition k = store competition k"
      "competition \<notin> set before \<longrightarrow> store_i competition = store competition"
      "\<not> truthy (store competition ''Detail_URL'') \<longrightarrow> store_i competition = store competition"
      "competition \<notin> set rest \<longrightarrow>
         store' competition = enriched session (world st_i) (store_i competition)"
    by blast
  from assms detail_loop_run [of status_text "before @ competition # rest" store session "[]" st]
    r(4)
  have t: "trace st' = trace st
              @ concat (map (\<lambda>r. events_of (store r)) (before @ competition # rest))"
    and n: "\<forall>r. \<not> truthy (store r ''Detail_URL'') \<longrightarrow> store' r = store r"
    by auto
  have u: "store_i competition ''Detail_URL'' = store competition ''Detail_URL''"
    using r(5) by (simp add: enrichment_keys_def)
  have a: "\<not> truthy (store competition ''Detail_URL'') \<longrightarrow>
               store_i(competition := enriched session (world st_i) (store_i competition))
                 = store_i
             \<and> after_record session (store_i competition) st_i = st_i
             \<and> store_i competition = store competition
             \<and> store' competition = store competition"
    using u r(7) n by (auto simp: enriched_def after_record_def)
  have b1: "fst (session (world st_i) (Get_Detail (the (store competition ''Detail_URL''))))
               = None \<longrightarrow>
             enriched session (world st_i) (store_i competition) = store_i competition"
    using u by (simp add: enriched_def)
  then have b: "fst (session (world st_i) (Get_Detail (the (store competition ''Detail_URL''))))
               = None \<longrightarrow>
               store_i(competition := enriched session (world st_i) (store_i competition))
                 = store_i
             \<and> (competition \<notin> set before \<and> competition \<notin> set rest \<longrightarrow>
                  store' competition = store competition)"
    using r(6) r(8) by auto
  have s: "\<forall>soup. truthy (store competition ''Detail_URL'')
               \<and> fst (session (world st_i)
                        (Get_Detail (the (store competition ''Detail_URL'')))) = Some soup \<longrightarrow>
               enriched session (world st_i) (store_i competition)
                 = store_i competition ++ parse_detail_page soup"
    using u by (simp add: enriched_def)
  have c: "\<forall>cells page. store competition = parse_row cells page \<and> detail_url_of cells = []
              \<longrightarrow> (\<forall>k \<in> enrichment_keys. store' competition k
                     = (if k = ''Events_Count'' then Some (Num 0) else Some (Str [])))"
  proof (intro allI impI)
    fix cells page
    assume p: "store competition = parse_row cells page \<and> detail_url_of cells = []"
    then have "\<not> truthy (store competition ''Detail_URL'')"
      by (simp add: parse_row_detail_url)
    with a have "store' competition = parse_row cells page" using p by simp
    then show "\<forall>k \<in> enrichment_keys. store' competition k
                     = (if k = ''Events_Count'' then Some (Num 0) else Some (Str []))"
      by (simp add: parse_row_def Let_def enrichment_keys_def)
  qed
  show ?thesis
    apply (rule exI [of _ st_i], rule exI [of _ store_i])
    apply (rule exI [of _ st'], rule exI [of _ store'])
    using r(1-3) r(4) [folded scrape_detail_pages_loop] t u a b s c
    by (intro conjI) assumption+
qed

theorem enrichment_soft_failure_witness:
  "\<exists>st' store'. scrape_detail_pages (\<lambda>w r. (None, w)) ([] @ 0 # [1]) True
        \<lparr>world = (), trace = []\<rparr>
        ((\<lambda>r. Map.empty)
           (0 := [''Detail_URL'' \<mapsto> Str ''u'', ''Event'' \<mapsto> Str ''Cross''],
            1 := [''Detail_URL'' \<mapsto> Str ''v'', ''Event'' \<mapsto> Str ''Relais'']))
        = Inr ([0, 1], st', store')
      \<and> trace st' = [Request (Get_Detail (Str ''u'')), Sleep 1,
                      Request (Get_Detail (Str ''v'')), Sleep 1]
      \<and> store' 0 = [''Detail_URL'' \<mapsto> Str ''u'', ''Event'' \<mapsto> Str ''Cross'']"
proof -
  let ?store = "(\<lambda>r::ref. Map.empty)
           (0 := [''Detail_URL'' \<mapsto> Str ''u'', ''Event'' \<mapsto> Str ''Cross''],
            1 := [''Detail_URL'' \<mapsto> Str ''v'', ''Event'' \<mapsto> Str ''Relais''])"
  have h: "True \<longrightarrow> (\<forall>r \<in> set ([] @ 0 # [1]). \<exists>s. ?store r ''Event'' = Some (Str s))"
    by simp
  show ?thesis
    using h enrichment_soft_failure [where status_text = True and before = "[]"
        and competition = 0 and rest = "[1]" and store = ?store
        and session = "\<lambda>w r. (None, w)" and st = "\<lparr>world = (), trace = []\<rparr>"]
    by (auto simp: events_of_def DEFAULT_DELAY_def)
qed

text \<open>
  C9. The record that a run leaves for a competition is the competition itself or the
  competition with one detail result merged into it. The keys of a detail result are
  the ten enrichment attributes, so the merged record has the detail result's value
  at each of them, and at every other key, the eight listing attributes among them,
  the value of the competition. A run sends one request for each record of the list
  that has a detail URL, returns the list, and changes no record outside the list.
\<close>

theorem enrichment_frame:
  assumes "status_text \<longrightarrow>
             (\<forall>r \<in> set (before @ competition # rest). \<exists>s. store r ''Event'' = Some (Str s))"
  shows "\<exists>st' store'.
           scrape_detail_pages session (before @ competition # rest) status_text st store
             = Inr (before @ competition # rest, st', store')
         \<and> (store' competition = store competition
              \<or> (\<exists>soup. store' competition = store competition ++ parse_detail_page soup
                    \<and> (\<forall>k \<in> enrichment_keys.
                         store' competition k = parse_detail_page soup k)))
         \<and> (\<forall>soup. dom (parse_detail_page soup) = enrichment_keys)
         \<and> (\<forall>k. k \<notin> enrichment_keys \<longrightarrow> store' competition k = store competition k)
         \<and> (\<forall>k \<in> listing_keys. store' competition k = store competition k)
         \<and> (\<forall>r. r \<notin> set (before @ competition # rest) \<longrightarrow> store' r = store r)
         \<and> length (filter is_request (trace st'))
             = length (filter is_request (trace st))
               + length (filter (\<lambda>r. truthy (store r ''Detail_URL''))
                   (before @ competition # rest))"
proof -
  from assms detail_loop_run [of status_text "before @ competition # rest" store session "[]" st]
  obtain st' store' where
    r: "detail_loop session status_text (before @ competition # rest) [] st store
          = Inr (before @ competition # rest, st', store')"
      "trace st' = trace st
         @ concat (map (\<lambda>r. events_of (store r)) (before @ competition # rest))"
      "\<forall>r k. k \<notin> enrichment_keys \<longrightarrow> store' r k = store r k"
      "\<forall>r. r \<notin> set (before @ competition # rest) \<longrightarrow> store' r = store r"
      "\<forall>r. store' r = store r \<or> (\<exists>soup. store' r = store r ++ parse_detail_page soup)"
    by auto
  have a: "store' competition = store competition
              \<or> (\<exists>soup. store' competition = store competition ++ parse_detail_page soup
                    \<and> (\<forall>k \<in> enrichment_keys.
                         store' competition k = parse_detail_page soup k))"
    using r(5) [THEN spec, of competition] parse_detail_page_dom
    by (auto simp: map_add_dom_app_simps)
  have b: "\<forall>k. k \<notin> enrichment_keys \<longrightarrow> store' competition k = store competition k"
    using r(3) by simp
  have "listing_keys \<inter> enrichment_keys = {}"
    by (auto simp: listing_keys_def enrichment_keys_def)
  with b have c: "\<forall>k \<in> listing_keys. store' competition k = store competition k"
    by blast
  have d: "length (filter is_request (trace st'))
             = length (filter is_request (trace st))
               + length (filter (\<lambda>r. truthy (store r ''Detail_URL''))
                   (before @ competition # rest))"
    using r(2) requests_of_events [of store "before @ competition # rest"] by simp
  have e: "\<forall>soup. dom (parse_detail_page soup) = enrichment_keys"
    by (simp add: parse_detail_page_dom)
  show ?thesis
    apply (rule exI [of _ st'], rule exI [of _ store'])
    using r(1) [folded scrape_detail_pages_loop] a e b c r(4) d
    by (intro conjI) assumption+
qed

theorem enrichment_frame_witness:
  "\<exists>st' store'. scrape_detail_pages
        (\<lambda>w r. (Some \<lparr>clignotant_rows = [], infoPratique = None, club_card = Some ''100m'',
                       epreuves = Some [Some ''100m'']\<rparr>, w))
        ([] @ 0 # []) True \<lparr>world = (), trace = []\<rparr>
        (\<lambda>r. [''Detail_URL'' \<mapsto> Str ''u'', ''Event'' \<mapsto> Str ''Cross'', ''Page'' \<mapsto> Num 1])
        = Inr ([0], st', store')
      \<and> store' 0 ''Page'' = Some (Num 1)
      \<and> store' 0 ''Detail_URL'' = Some (Str ''u'')"
proof -
  let ?store = "\<lambda>r::ref. [''Detail_URL'' \<mapsto> Str ''u'', ''Event'' \<mapsto> Str ''Cross'',
                  ''Page'' \<mapsto> Num 1]"
  let ?session = "\<lambda>w r. (Some \<lparr>clignotant_rows = [], infoPratique = None,
                         club_card = Some ''100m'', epreuves = Some [Some ''100m'']\<rparr>, w)"
  have h: "True \<longrightarrow> (\<forall>r \<in> set ([] @ 0 # []). \<exists>s. ?store r ''Event'' = Some (Str s))"
    by simp
  have k: "''Page'' \<in> listing_keys" "''Detail_URL'' \<in> listing_keys"
    by (simp_all add: listing_keys_def)
  show ?thesis
    using h k enrichment_frame [where status_text = True and before = "[]"
        and competition = 0 and rest = "[]" and store = ?store
        and session = ?session and st = "\<lparr>world = (), trace = []\<rparr>"]
    by auto
qed

section \<open>Properties of the pagination driver\<close>

lemma scrape_page_trace:
  "scrape_page session params page st = (res, st1) \<Longrightarrow>
     trace st1 = trace st @ [Request (Get_Listing (params_with_page params page))]"
  by (auto simp: scrape_page_def send_def split: prod.splits option.splits)

lemma scrape_page_result:
  "scrape_page session params page st = ((competitions, success), st1) \<Longrightarrow>
     (case fst (session (world st) (Get_Listing (params_with_page params page))) of
        None \<Rightarrow> \<not> success \<and> competitions = []
      | Some soup \<Rightarrow> success \<and> competitions = parse_competitions soup page)"
  by (auto simp: scrape_page_def send_def split: prod.splits option.splits)

lemma page_loop_extends:
  assumes "page_loop session params page acc st = Some y"
  shows "\<exists>more evs. fst y = acc @ more
        \<and> trace (snd y)
            = trace st @ Request (Get_Listing (params_with_page params page)) # evs"
proof (rule page_loop.raw_induct [where P = "\<lambda>session params page acc st y.
      \<exists>more evs. fst y = acc @ more
        \<and> trace (snd y)
            = trace st @ Request (Get_Listing (params_with_page params page)) # evs",
      OF _ assms])
  fix loop session params page acc st y
  assume ih: "\<And>session params page acc st y.
      loop session params page acc st = Some y \<Longrightarrow>
      \<exists>more evs. fst y = acc @ more
        \<and> trace (snd y)
            = trace st @ Request (Get_Listing (params_with_page params page)) # evs"
    and b: "(case scrape_page session params page st of
       ((competitions, success), st1) \<Rightarrow>
         if \<not> success \<or> competitions = [] then Some (acc, st1)
         else if length competitions < COMPETITIONS_PER_PAGE
              then Some (acc @ competitions, st1)
              else loop session params (page + 1) (acc @ competitions)
                     (sleep DEFAULT_DELAY st1)) = Some y"
  obtain competitions success st1 where
    s: "scrape_page session params page st = ((competitions, success), st1)"
    by (metis prod.exhaust)
  note t = scrape_page_trace [OF s]
  show "\<exists>more evs. fst y = acc @ more
        \<and> trace (snd y)
            = trace st @ Request (Get_Listing (params_with_page params page)) # evs"
  proof (cases "\<not> success \<or> competitions = []")
    case True
    with b s have "y = (acc, st1)" by auto
    with t show ?thesis by (intro exI [of _ "[]"]) simp
  next
    case False
    note f = this
    show ?thesis
    proof (cases "length competitions < COMPETITIONS_PER_PAGE")
      case True
      with b s f have "y = (acc @ competitions, st1)" by auto
      with t show ?thesis by (intro exI [of _ competitions] exI [of _ "[]"]) simp
    next
      case False
      with b s f have
        "loop session params (page + 1) (acc @ competitions) (sleep DEFAULT_DELAY st1) = Some y"
        by simp
      from ih [OF this] obtain more evs where
        "fst y = (acc @ competitions) @ more"
        "trace (snd y) = trace (sleep DEFAULT_DELAY st1)
           @ Request (Get_Listing (params_with_page params (page + 1))) # evs"
        by blast
      then show ?thesis using t by (simp add: sleep_def)
    qed
  qed
qed

lemma page_loop_step:
  assumes "scrape_page session params page st = ((competitions, success), st1)"
  shows "page_loop session params page acc st =
           (if \<not> success \<or> competitions = [] then Some (acc, st1)
            else if length competitions < COMPETITIONS_PER_PAGE
                 then Some (acc @ competitions, st1)
                 else page_loop session params (page + 1) (acc @ competitions)
                        (sleep DEFAULT_DELAY st1))"
  using assms by (subst page_loop.simps) simp

text \<open>
  C1. Let a page be requested in some state, with the records and the flag that
  \<open>scrape_page\<close> gives for it: no records and \<open>False\<close> when the request fails, the
  records of the parsed page and \<open>True\<close> otherwise. The loop returns the accumulator
  as it is when the request fails or the page has no record, and the accumulator
  with the records of the page when their number is between 1 and 249. When the page
  has 250 records or more the loop pauses and goes on with the next page number and
  the accumulator with the records of the page; a run that returns from there returns
  these records, and its trace has the request of the page, the pause and the request
  of the next page, whose position is the page number plus 1. Whatever a run returns
  begins with the accumulator it was started with.
\<close>

theorem pagination_step:
  assumes "scrape_page session params page st = ((competitions, success), st1)"
  shows "(case fst (session (world st) (Get_Listing (params_with_page params page))) of
            None \<Rightarrow> \<not> success \<and> competitions = []
          | Some soup \<Rightarrow> success \<and> competitions = parse_competitions soup page)
       \<and> trace st1 = trace st @ [Request (Get_Listing (params_with_page params page))]
       \<and> (\<not> success \<or> competitions = [] \<longrightarrow>
            page_loop session params page all_competitions st = Some (all_competitions, st1))
       \<and> (success \<and> competitions \<noteq> [] \<and> length competitions < 250 \<longrightarrow>
            page_loop session params page all_competitions st
              = Some (all_competitions @ competitions, st1))
       \<and> (success \<and> 250 \<le> length competitions \<longrightarrow>
            page_loop session params page all_competitions st
              = page_loop session params (page + 1) (all_competitions @ competitions)
                  (sleep DEFAULT_DELAY st1)
            \<and> (\<forall>out st'. page_loop session params page all_competitions st = Some (out, st')
                 \<longrightarrow> (\<exists>more evs. out = all_competitions @ competitions @ more
                        \<and> trace st' = trace st
                            @ [Request (Get_Listing (params_with_page params page)),
                               Sleep DEFAULT_DELAY,
                               Request (Get_Listing (params_with_page params (page + 1)))]
                            @ evs)))
       \<and> (\<forall>out st'. page_loop session params page all_competitions st = Some (out, st')
             \<longrightarrow> (\<exists>more. out = all_competitions @ more))
       \<and> params_with_page params (page + 1) ''frmposition'' = Some (str (page + 1))
       \<and> COMPETITIONS_PER_PAGE = 250"
proof -
  note step = page_loop_step [OF assms, of all_competitions]
  note t = scrape_page_trace [OF assms]
  have a: "\<not> success \<or> competitions = [] \<longrightarrow>
            page_loop session params page all_competitions st = Some (all_competitions, st1)"
    using step by simp
  have b: "success \<and> competitions \<noteq> [] \<and> length competitions < 250 \<longrightarrow>
            page_loop session params page all_competitions st
              = Some (all_competitions @ competitions, st1)"
    using step by (simp add: COMPETITIONS_PER_PAGE_def)
  have c: "success \<and> 250 \<le> length competitions \<longrightarrow>
            page_loop session params page all_competitions st
              = page_loop session params (page + 1) (all_competitions @ competitions)
                  (sleep DEFAULT_DELAY st1)
            \<and> (\<forall>out st'. page_loop session params page all_competitions st = Some (out, st')
                 \<longrightarrow> (\<exists>more evs. out = all_competitions @ competitions @ more
                        \<and> trace st' = trace st
                            @ [Request (Get_Listing (params_with_page params page)),
                               Sleep DEFAULT_DELAY,
                               Request (Get_Listing (params_with_page params (page + 1)))]
                            @ evs))"
  proof (intro impI)
    assume h: "success \<and> 250 \<le> length competitions"
    then have n: "competitions \<noteq> []" by auto
    have e: "page_loop session params page all_competitions st
              = page_loop session params (page + 1) (all_competitions @ competitions)
                  (sleep DEFAULT_DELAY st1)"
      using step h n by (simp add: COMPETITIONS_PER_PAGE_def)
    have "\<exists>more evs. out = all_competitions @ competitions @ more
                        \<and> trace st' = trace st
                            @ [Request (Get_Listing (params_with_page params page)),
                               Sleep DEFAULT_DELAY,
                               Request (Get_Listing (params_with_page params (page + 1)))]
                            @ evs"
      if r: "page_loop session params page all_competitions st = Some (out, st')" for out st'
    proof -
      from r e have "page_loop session params (page + 1) (all_competitions @ competitions)
                  (sleep DEFAULT_DELAY st1) = Some (out, st')"
        by simp
      from page_loop_extends [OF this] obtain more evs where
        "out = (all_competitions @ competitions) @ more"
        "trace st' = trace (sleep DEFAULT_DELAY st1)
           @ Request (Get_Listing (params_with_page params (page + 1))) # evs"
        by auto
      then show ?thesis using t by (simp add: sleep_def)
    qed
    with e show "page_loop session params page all_competitions st
              = page_loop session params (page + 1) (all_competitions @ competitions)
                  (sleep DEFAULT_DELAY st1)
            \<and> (\<forall>out st'. page_loop session params page all_competitions st = Some (out, st')
                 \<longrightarrow> (\<exists>more evs. out = all_competitions @ competitions @ more
                        \<and> trace st' = trace st
                            @ [Request (Get_Listing (params_with_page params page)),
                               Sleep DEFAULT_DELAY,
                               Request (Get_Listing (params_with_page params (page + 1)))]
                            @ evs))"
      by blast
  qed
  have d: "\<forall>out st'. page_loop session params page all_competitions st = Some (out, st')
             \<longrightarrow> (\<exists>more. out = all_competitions @ more)"
    using page_loop_extends [of session params page all_competitions st] by fastforce
  have e: "params_with_page params (page + 1) ''frmposition'' = Some (str (page + 1))"
    by (simp add: params_with_page_def)
  show ?thesis
    using scrape_page_result [OF assms] t a b c d e
    by (simp only: COMPETITIONS_PER_PAGE_def simp_thms)
qed

theorem pagination_step_witness:
  "page_loop (\<lambda>w r. (None, w)) Map.empty 1 [] \<lparr>world = (), trace = []\<rparr>
     = Some ([], \<lparr>world = (),
          trace = [Request (Get_Listing (params_with_page Map.empty 1))]\<rparr>)
   \<and> page_loop
        (\<lambda>w r. (Some \<lparr>clignotant_rows = [replicate 7 \<lparr>cell_text = ''a'', cell_anchors = []\<rparr>],
                       infoPratique = None, club_card = None, epreuves = None\<rparr>, w))
        Map.empty 1 [] \<lparr>world = (), trace = []\<rparr>
     = Some ([parse_row (replicate 7 \<lparr>cell_text = ''a'', cell_anchors = []\<rparr>) 1],
         \<lparr>world = (), trace = [Request (Get_Listing (params_with_page Map.empty 1))]\<rparr>)"
proof -
  let ?st = "\<lparr>world = (), trace = []\<rparr>"
  let ?st1 = "\<lparr>world = (), trace = [Request (Get_Listing (params_with_page Map.empty 1))]\<rparr>"
  let ?row = "replicate 7 \<lparr>cell_text = ''a'', cell_anchors = []\<rparr>"
  let ?soup = "\<lparr>clignotant_rows = [?row], infoPratique = None, club_card = None,
                 epreuves = None\<rparr>"
  have h1: "scrape_page (\<lambda>w r. (None, w)) Map.empty 1 ?st = (([], False), ?st1)"
    by (simp add: scrape_page_def send_def)
  have p: "parse_competitions ?soup 1 = [parse_row ?row 1]"
    by (simp add: parse_competitions_def)
  have h2: "scrape_page (\<lambda>w r. (Some ?soup, w)) Map.empty 1 ?st
              = (([parse_row ?row 1], True), ?st1)"
    by (simp add: scrape_page_def send_def p)
  show ?thesis
    using pagination_step [OF h1, of "[]"] pagination_step [OF h2, of "[]"] by simp
qed

section \<open>Properties of the batches\<close>





lemma split_range_unfold:
  "cur \<le> end_dt \<Longrightarrow> 0 \<le> batch_days \<Longrightarrow>
     split_range cur end_dt batch_days
       = (cur, min (cur + batch_days) end_dt)
           # split_range (min (cur + batch_days) end_dt + 1) end_dt batch_days"
  by (subst split_range.simps) simp





lemma split_range_length:
  "length (split_range cur end_dt batch_days) \<le> nat (end_dt + 1 - cur)"
proof (induction cur end_dt batch_days rule: split_range.induct)
  case (1 cur end_dt batch_days)
  show ?case
  proof (cases "cur \<le> end_dt \<and> 0 \<le> batch_days")
    case True
    let ?e = "min (cur + batch_days) end_dt"
    have "length (split_range (?e + 1) end_dt batch_days) \<le> nat (end_dt + 1 - (?e + 1))"
      using 1 [OF True] .
    moreover have "nat (end_dt + 1 - (?e + 1)) < nat (end_dt + 1 - cur)"
      using True by auto
    ultimately show ?thesis
      using True by (simp add: split_range_unfold)
  next
    case False
    then have "split_range cur end_dt batch_days = []"
      by (subst split_range.simps) simp
    then show ?thesis by simp
  qed
qed


lemma add_days_cases: "add_days d n = Inl OverflowError \<or> add_days d n = Inr (d + n)"
  by (simp add: add_days_def)

lemma batch_loop_done:
  "end_dt < cur \<Longrightarrow>
     batch_loop session params batch_days end_dt cur batch_idx acc st
       = Some (Inr (acc, batch_idx, st))"
  by (subst batch_loop.simps) simp


lemma page_loop_fail:
  "page_loop (\<lambda>w r. (None, w)) params page acc st
     = Some (acc, st\<lparr>trace := trace st @ [Request (Get_Listing (params_with_page params page))]\<rparr>)"
  by (subst page_loop.simps) (simp add: scrape_page_def send_def)




text \<open>
  C10. When \<open>batch_days\<close> is not negative and every run of the pagination driver
  returns, the loop over the batches returns: with \<open>OverflowError\<close>, when a date
  past 9999-12-31 is computed, or with the number of batches made, which is at most
  the number of days from the current start to the end date. The start of the next
  batch is the day after the end of the batch, so it is later than the start of the
  batch.
\<close>

theorem batch_loop_terminates:
  assumes "0 \<le> batch_days" and "\<And>p a s. page_loop session p 1 a s \<noteq> None"
  shows "(\<exists>res. batch_loop session params batch_days end_dt cur batch_idx acc st = Some res
            \<and> (case res of
                  Inl e \<Rightarrow> e = OverflowError
                | Inr (all_competitions, idx, st') \<Rightarrow>
                    batch_idx \<le> idx \<and> idx - batch_idx \<le> max 0 (end_dt + 1 - cur)))
       \<and> (\<forall>shifted next_start.
             add_days cur batch_days = Inr shifted
             \<and> add_days (min shifted end_dt) 1 = Inr next_start \<and> cur \<le> end_dt \<longrightarrow>
             cur \<le> min shifted end_dt \<and> next_start = min shifted end_dt + 1
             \<and> cur < next_start)"
proof
  show "\<exists>res. batch_loop session params batch_days end_dt cur batch_idx acc st = Some res
            \<and> (case res of
                  Inl e \<Rightarrow> e = OverflowError
                | Inr (all_competitions, idx, st') \<Rightarrow>
                    batch_idx \<le> idx \<and> idx - batch_idx \<le> max 0 (end_dt + 1 - cur))"
  proof (induction "nat (end_dt + 1 - cur)" arbitrary: cur batch_idx acc st rule: less_induct)
    case less
    show ?case
    proof (cases "cur \<le> end_dt")
      case False
      then show ?thesis by (simp add: batch_loop_done)
    next
      case True
      let ?e = "min (cur + batch_days) end_dt"
      let ?p = "params(''frmdate1'' \<mapsto> strftime cur, ''frmdate2'' \<mapsto> strftime ?e)"
      from add_days_cases [of cur batch_days] show ?thesis
      proof
        assume "add_days cur batch_days = Inl OverflowError"
        then show ?thesis using True by (subst batch_loop.simps) simp
      next
        assume a1: "add_days cur batch_days = Inr (cur + batch_days)"
        obtain all' st' where p: "page_loop session ?p 1 acc st = Some (all', st')"
          using assms(2) [of ?p acc st] by (cases "page_loop session ?p 1 acc st") auto
        from add_days_cases [of ?e 1] show ?thesis
        proof
          assume "add_days ?e 1 = Inl OverflowError"
          then show ?thesis using True a1 p by (subst batch_loop.simps) simp
        next
          assume a2: "add_days ?e 1 = Inr (?e + 1)"
          have m: "nat (end_dt + 1 - (?e + 1)) < nat (end_dt + 1 - cur)"
            using True assms(1) by auto
          from less [OF m, of "batch_idx + 1" all' st']
          obtain res where
            r: "batch_loop session params batch_days end_dt (?e + 1) (batch_idx + 1) all' st'
                  = Some res"
              "case res of
                  Inl e \<Rightarrow> e = OverflowError
                | Inr (all_competitions, idx, st') \<Rightarrow>
                    batch_idx + 1 \<le> idx \<and> idx - (batch_idx + 1) \<le> max 0 (end_dt + 1 - (?e + 1))"
            by blast
          have "batch_loop session params batch_days end_dt cur batch_idx acc st = Some res"
            using True a1 a2 p r(1) by (subst batch_loop.simps) simp
          moreover have "case res of
                  Inl e \<Rightarrow> e = OverflowError
                | Inr (all_competitions, idx, st') \<Rightarrow>
                    batch_idx \<le> idx \<and> idx - batch_idx \<le> max 0 (end_dt + 1 - cur)"
            using r(2) True assms(1) by (auto split: sum.splits)
          ultimately show ?thesis by blast
        qed
      qed
    qed
  qed
next
  show "\<forall>shifted next_start.
             add_days cur batch_days = Inr shifted
             \<and> add_days (min shifted end_dt) 1 = Inr next_start \<and> cur \<le> end_dt \<longrightarrow>
             cur \<le> min shifted end_dt \<and> next_start = min shifted end_dt + 1
             \<and> cur < next_start"
    using assms(1) by (auto simp: add_days_def split: if_splits)
qed

theorem batch_loop_terminates_witness:
  "batch_loop (\<lambda>w r. (None, w)) Map.empty 30 739647 739606 1 []
     \<lparr>world = 0 :: nat, trace = []\<rparr> \<noteq> None"
proof -
  have h1: "(0::int) \<le> 30" by simp
  have h2: "page_loop (\<lambda>w r. (None, w)) p 1 a s \<noteq> None" for p a and s :: "nat io"
    by (simp add: page_loop_fail)
  show ?thesis
    using batch_loop_terminates [OF h1 h2, of Map.empty 739647 739606 1 "[]"
        "\<lparr>world = 0 :: nat, trace = []\<rparr>"]
    by auto
qed

end
